theory Spec2Isabelle
  imports Complex_Main "HOL-Library.Multiset" "HOL-Library.Sublist"
    "HOL-Library.List_Lexorder" "HOL-Library.Char_ord"
begin

section \<open>CSI to ICC code matching: the keyword matcher and the search endpoint\<close>

text \<open>
  A shallow embedding of \<^verbatim>\<open>backend/app/keyword_matcher.py\<close>, of the search
  endpoint of \<^verbatim>\<open>backend/app/routers/codes.py\<close> and of the queries of
  \<^verbatim>\<open>backend/app/crud.py\<close> they call, over the tables of
  \<^verbatim>\<open>backend/app/models.py\<close>.

  Conventions of the model:
  \<^item> a Python \<^verbatim>\<open>str\<close> is a \<^typ>\<open>string\<close>; characters are bytes, and the
    case and whitespace functions below are Python's on ASCII text;
  \<^item> a similarity score (a Python float) is a \<^typ>\<open>real\<close>; the code only compares
    scores, with each other and with the decimal constants of the source;
  \<^item> an exception is a value \<open>Inl e\<close> of a sum type;
  \<^item> what the code takes from scikit-learn, numpy and the Python runtime (the fitted
    TF-IDF model and its cosine similarity, \<^verbatim>\<open>argsort\<close>, the iteration order of a
    \<^verbatim>\<open>set\<close>) is a field of the record \<open>env\<close>, a parameter of the functions
    that use it.
\<close>

subsection \<open>Strings\<close>

definition is_space :: "char \<Rightarrow> bool" where
  \<comment> \<open>the ASCII characters \<^verbatim>\<open>str.split()\<close> splits at: tab, LF, VT, FF, CR, FS, GS, RS, US, space\<close>
  "is_space c = (let n = (of_char c :: nat) in (9 \<le> n \<and> n \<le> 13) \<or> (28 \<le> n \<and> n \<le> 32))"

definition lower_char :: "char \<Rightarrow> char" where
  "lower_char c = (let n = (of_char c :: nat) in if 65 \<le> n \<and> n \<le> 90 then char_of (n + 32) else c)"

definition lower :: "string \<Rightarrow> string" where
  \<comment> \<open>\<^verbatim>\<open>str.lower()\<close>\<close>
  "lower s = map lower_char s"

fun split_acc :: "string \<Rightarrow> string \<Rightarrow> string list" where
  "split_acc w [] = (if w = [] then [] else [w])"
| "split_acc w (c # cs) =
     (if is_space c then (if w = [] then split_acc [] cs else w # split_acc [] cs)
      else split_acc (w @ [c]) cs)"

definition split :: "string \<Rightarrow> string list" where
  \<comment> \<open>\<^verbatim>\<open>str.split()\<close> with no argument: the maximal runs of non-whitespace\<close>
  "split s = split_acc [] s"

fun join :: "string \<Rightarrow> string list \<Rightarrow> string" where
  \<comment> \<open>\<^verbatim>\<open>sep.join(parts)\<close>\<close>
  "join sep [] = []"
| "join sep [x] = x"
| "join sep (x # y # ys) = x @ sep @ join sep (y # ys)"

definition digit_char :: "nat \<Rightarrow> char" where
  "digit_char d = ''0123456789'' ! d"

fun str_nat :: "nat \<Rightarrow> string" where
  "str_nat n = (if n < 10 then [digit_char n] else str_nat (n div 10) @ [digit_char (n mod 10)])"

declare str_nat.simps [simp del]

definition str_int :: "int \<Rightarrow> string" where
  \<comment> \<open>\<^verbatim>\<open>str(i)\<close>, the decimal rendering an f-string gives an int\<close>
  "str_int i = (if i < 0 then CHR ''-'' # str_nat (nat (- i)) else str_nat (nat i))"

subsection \<open>The tables of models.py\<close>

record CSICode =
  csi_id :: int
  csi_code :: string
  division :: int
  csi_title :: string
  csi_description :: "string option"

record ICCDocument =
  doc_id :: int
  doc_code :: string
  doc_year :: int
  doc_title :: string
  doc_state :: "string option"
  base_url :: string

record ICCSection =
  sec_id :: int
  document_id :: int
  section_number :: string
  sec_title :: string
  sec_chapter :: "int option"
  url :: string
  sec_description :: "string option"

record CSIICCMapping =
  map_id :: "int option"
  csi_code_id :: int
  icc_section_id :: int
  relevance :: "string option"
  map_notes :: "string option"
  created_at :: "nat option"

subsection \<open>The corpus builder and the query builder\<close>

text \<open>
  Python's truth value decides what is appended: an empty string, \<^verbatim>\<open>None\<close> and the
  number 0 are false.
\<close>

definition create_searchable_text :: "ICCSection \<Rightarrow> string" where
  "create_searchable_text section =
     (let parts = [];
          parts = (if section_number section \<noteq> [] then parts @ [section_number section] else parts);
          parts = (if sec_title section \<noteq> []
                   then (parts @ [sec_title section]) @ [sec_title section] else parts);
          parts = (case sec_description section of
                     None \<Rightarrow> parts
                   | Some d \<Rightarrow> if d \<noteq> [] then parts @ [d] else parts);
          parts = (case sec_chapter section of
                     None \<Rightarrow> parts
                   | Some n \<Rightarrow> if n \<noteq> 0 then parts @ [''chapter '' @ str_int n] else parts)
      in join '' '' parts)"

definition spec_searchable_text :: "ICCSection \<Rightarrow> string" where
  \<comment> \<open>the construction rule in the order the specification words it: section number, title
      twice, the phrase \<^verbatim>\<open>chapter N\<close>, then the description\<close>
  "spec_searchable_text section =
     join '' ''
       ((if section_number section \<noteq> [] then [section_number section] else []) @
        (if sec_title section \<noteq> [] then [sec_title section, sec_title section] else []) @
        (case sec_chapter section of
           None \<Rightarrow> []
         | Some n \<Rightarrow> if n \<noteq> 0 then [''chapter '' @ str_int n] else []) @
        (case sec_description section of
           None \<Rightarrow> []
         | Some d \<Rightarrow> if d \<noteq> [] then [d] else []))"

definition create_csi_query :: "CSICode \<Rightarrow> string" where
  "create_csi_query c =
     (let parts = [];
          parts = (if csi_code c \<noteq> [] then parts @ [csi_code c] else parts);
          parts = (if csi_title c \<noteq> []
                   then ((parts @ [csi_title c]) @ [csi_title c]) @ [csi_title c] else parts);
          parts = (case csi_description c of
                     None \<Rightarrow> parts
                   | Some d \<Rightarrow> if d \<noteq> [] then parts @ [d] else parts)
      in join '' '' parts)"

subsection \<open>The confidence classifier\<close>

definition score_to_confidence :: "real \<Rightarrow> string" where
  "score_to_confidence score =
     (if score \<ge> 0.5 then ''high''
      else if score \<ge> 0.3 then ''medium''
      else if score \<ge> 0.15 then ''low''
      else ''very_low'')"

subsection \<open>What the matcher takes from its libraries\<close>

record env =
  set_iter :: "string set \<Rightarrow> string list"
    \<comment> \<open>the order in which Python iterates over a \<^verbatim>\<open>set\<close> of strings\<close>
  argsort :: "real list \<Rightarrow> nat list"
    \<comment> \<open>\<^verbatim>\<open>numpy.argsort\<close>: the indices of an array, in an order that sorts it ascending\<close>
  fit_raises :: "string list \<Rightarrow> bool"
    \<comment> \<open>whether \<^verbatim>\<open>TfidfVectorizer.fit_transform\<close> raises on these texts (it does when no
        term outside its stop words is left)\<close>
  cosine :: "string list \<Rightarrow> string \<Rightarrow> string \<Rightarrow> real"
    \<comment> \<open>\<open>cosine texts q t\<close>: with the vectorizer fitted on \<open>texts\<close>, the cosine
        similarity of the vector of the query \<open>q\<close> and the vector of the corpus text \<open>t\<close>\<close>

definition set_iter_ok :: "env \<Rightarrow> bool" where
  \<comment> \<open>iterating over a finite set yields its elements, each once\<close>
  "set_iter_ok E = (\<forall>S. finite S \<longrightarrow> set (set_iter E S) = S \<and> distinct (set_iter E S))"

definition argsort_ok :: "env \<Rightarrow> bool" where
  \<comment> \<open>the indices returned are a permutation of all indices, and sort the array ascending;
      the order of equal elements is left open (numpy's default sort is not stable)\<close>
  "argsort_ok E =
     (\<forall>xs. mset (argsort E xs) = mset [0..<length xs] \<and> sorted (map ((!) xs) (argsort E xs)))"

subsection \<open>The match explainer\<close>

definition stop_words :: "string set" where
  "stop_words = {''the'', ''a'', ''an'', ''and'', ''or'', ''but'', ''in'', ''on'', ''at'', ''to'',
                 ''for'', ''of'', ''with'', ''by''}"

definition sorted_by_len_desc :: "string list \<Rightarrow> string list" where
  \<comment> \<open>\<^verbatim>\<open>sorted(ws, key=len, reverse=True)\<close>: a stable sort, longest first\<close>
  "sorted_by_len_desc ws = sort_key (\<lambda>w. - int (length w)) ws"

definition find_matched_keywords :: "env \<Rightarrow> string \<Rightarrow> string \<Rightarrow> string list" where
  "find_matched_keywords E query text =
     (let query_words = set (split (lower query));
          text_words = set (split (lower text));
          query_words = query_words - stop_words;
          text_words = text_words - stop_words;
          matched = query_words \<inter> text_words
      in take 5 (sorted_by_len_desc (set_iter E matched)))"

subsection \<open>Exceptions\<close>

datatype error =
    ValueError string
  | RuntimeError string
  | IndexError
  | IntegrityError
  | HTTPException nat string

subsection \<open>The database session\<close>

text \<open>
  The tables the matcher and the search read, the rows of \<^verbatim>\<open>csi_icc_mappings\<close> that are
  committed, and the session's own state: the mappings added with \<^verbatim>\<open>db.add\<close> and not yet
  committed, and the number of commits made. Whether a query flushes the pending rows first
  (and so sees them) is the session's \<^verbatim>\<open>autoflush\<close> setting, made where the session
  is created, in \<^verbatim>\<open>app/database.py\<close>; here it is a field of the session, and the
  properties below hold for both settings. Of the constraints of \<^verbatim>\<open>models.py\<close> the
  model enforces the unique constraint of \<^verbatim>\<open>csi_icc_mappings\<close>; foreign keys are not
  checked. A query with no \<^verbatim>\<open>ORDER BY\<close> returns its rows in table order.
\<close>

record db =
  t_csi_codes :: "CSICode list"
  t_icc_documents :: "ICCDocument list"
  t_icc_sections :: "ICCSection list"
  t_csi_icc_mappings :: "CSIICCMapping list"
  pending :: "CSIICCMapping list"
  autoflush :: bool
  commits :: nat

definition visible_mappings :: "db \<Rightarrow> CSIICCMapping list" where
  "visible_mappings d = t_csi_icc_mappings d @ (if autoflush d then pending d else [])"

definition same_pair :: "CSIICCMapping \<Rightarrow> CSIICCMapping \<Rightarrow> bool" where
  "same_pair x y = (csi_code_id x = csi_code_id y \<and> icc_section_id x = icc_section_id y)"

definition next_id :: "CSIICCMapping list \<Rightarrow> int" where
  "next_id tbl = 1 + fold (\<lambda>r a. case map_id r of None \<Rightarrow> a | Some i \<Rightarrow> max i a) tbl 0"

fun insert_rows :: "CSIICCMapping list \<Rightarrow> CSIICCMapping list \<Rightarrow> error + CSIICCMapping list" where
  \<comment> \<open>the INSERTs of a flush, under \<^verbatim>\<open>UniqueConstraint('csi_code_id', 'icc_section_id')\<close>\<close>
  "insert_rows tbl [] = Inr tbl"
| "insert_rows tbl (r # rs) =
     (if \<exists>x \<in> set tbl. same_pair x r then Inl IntegrityError
      else insert_rows (tbl @ [r\<lparr>map_id := Some (next_id tbl)\<rparr>]) rs)"

definition db_add :: "db \<Rightarrow> CSIICCMapping \<Rightarrow> db" where
  "db_add d r = d\<lparr>pending := pending d @ [r]\<rparr>"

definition db_commit :: "db \<Rightarrow> (error + unit) \<times> db" where
  \<comment> \<open>all pending rows become committed rows, or the transaction is rolled back\<close>
  "db_commit d =
     (case insert_rows (t_csi_icc_mappings d) (pending d) of
        Inl e \<Rightarrow> (Inl e, d\<lparr>pending := []\<rparr>)
      | Inr tbl \<Rightarrow> (Inr (), d\<lparr>t_csi_icc_mappings := tbl, pending := [], commits := commits d + 1\<rparr>))"

definition query_mapping_first :: "db \<Rightarrow> int \<Rightarrow> int \<Rightarrow> CSIICCMapping option" where
  \<comment> \<open>\<^verbatim>\<open>db.query(CSIICCMapping).filter(csi_code_id == c, icc_section_id == s).first()\<close>\<close>
  "query_mapping_first d c s =
     find (\<lambda>r. csi_code_id r = c \<and> icc_section_id r = s) (visible_mappings d)"

definition query_icc_sections :: "db \<Rightarrow> string option \<Rightarrow> ICCSection list" where
  \<comment> \<open>\<^verbatim>\<open>db.query(ICCSection).join(ICCDocument)\<close>, filtered by the document code when one is given\<close>
  "query_icc_sections d icc_document_code =
     filter (\<lambda>s. \<exists>doc \<in> set (t_icc_documents d). doc_id doc = document_id s \<and>
                    (case icc_document_code of
                       None \<Rightarrow> True
                     | Some k \<Rightarrow> k = [] \<or> doc_code doc = k))
       (t_icc_sections d)"

subsection \<open>crud.py: the curated lookup\<close>

definition get_csi_code :: "db \<Rightarrow> string \<Rightarrow> CSICode option" where
  "get_csi_code d code = find (\<lambda>c. csi_code c = code) (t_csi_codes d)"

definition get_icc_sections_for_csi_code ::
  "db \<Rightarrow> string \<Rightarrow> string option \<Rightarrow> int option \<Rightarrow> string option \<Rightarrow> ICCSection list" where
  "get_icc_sections_for_csi_code d code state year icc_document =
     filter (\<lambda>s.
        (\<exists>m \<in> set (visible_mappings d). icc_section_id m = sec_id s \<and>
           (\<exists>c \<in> set (t_csi_codes d). csi_code_id m = csi_id c \<and> csi_code c = code)) \<and>
        (\<exists>doc \<in> set (t_icc_documents d). document_id s = doc_id doc \<and>
           (case state of None \<Rightarrow> True | Some st \<Rightarrow> st = [] \<or> doc_state doc = Some st) \<and>
           (case year of None \<Rightarrow> True | Some y \<Rightarrow> y = 0 \<or> doc_year doc = y) \<and>
           (case icc_document of None \<Rightarrow> True | Some k \<Rightarrow> k = [] \<or> doc_code doc = k)))
       (t_icc_sections d)"

record SearchResult =
  r_csi_code :: CSICode
  r_icc_sections :: "ICCSection list"
  total_results :: nat
  source :: "string option"

definition search_csi_to_icc ::
  "db \<Rightarrow> string \<Rightarrow> string option \<Rightarrow> int option \<Rightarrow> string option \<Rightarrow> SearchResult option" where
  "search_csi_to_icc d code state year icc_document =
     (case get_csi_code d code of
        None \<Rightarrow> None
      | Some csi \<Rightarrow>
          let icc_sections = get_icc_sections_for_csi_code d code state year icc_document
          in Some \<lparr>r_csi_code = csi, r_icc_sections = icc_sections,
                   total_results = length icc_sections, source = None\<rparr>)"

subsection \<open>The keyword matcher\<close>

record matcher =
  icc_sections :: "ICCSection list"
  icc_vectors :: "string list option"
    \<comment> \<open>the TF-IDF matrix, kept as the texts it was computed from; \<^verbatim>\<open>None\<close> before \<^verbatim>\<open>initialize\<close>\<close>

definition KeywordMatcher :: matcher where
  "KeywordMatcher = \<lparr>icc_sections = [], icc_vectors = None\<rparr>"

definition initialize :: "env \<Rightarrow> matcher \<Rightarrow> db \<Rightarrow> string option \<Rightarrow> error + matcher" where
  "initialize E self d icc_document_code =
     (let self = self\<lparr>icc_sections := query_icc_sections d icc_document_code\<rparr>
      in if icc_sections self = [] then Inl (ValueError ''No ICC sections found in database'')
         else let icc_texts = map create_searchable_text (icc_sections self)
              in if fit_raises E icc_texts then Inl (ValueError ''empty vocabulary; perhaps the documents only contain stop words'')
                 else Inr (self\<lparr>icc_vectors := Some icc_texts\<rparr>))"

record MatchResult =
  m_section :: ICCSection
  m_score :: real
  matched_keywords :: "string list"
  confidence :: string

definition slice_to :: "int \<Rightarrow> 'a list \<Rightarrow> 'a list" where
  \<comment> \<open>\<^verbatim>\<open>xs[:k]\<close>: a negative \<open>k\<close> counts from the end\<close>
  "slice_to k xs = (if k \<ge> 0 then take (nat k) xs else take (length xs - nat (- k)) xs)"

fun results_loop ::
  "env \<Rightarrow> matcher \<Rightarrow> string \<Rightarrow> real list \<Rightarrow> real \<Rightarrow> nat list \<Rightarrow> error + MatchResult list" where
  "results_loop E self query_text similarities min_score [] = Inr []"
| "results_loop E self query_text similarities min_score (idx # rest) =
     (if idx \<ge> length similarities then Inl IndexError
      else let score = similarities ! idx in
        if score < min_score then results_loop E self query_text similarities min_score rest
        else if idx \<ge> length (icc_sections self) then Inl IndexError
        else let section = icc_sections self ! idx;
                 matched_keywords =
                   find_matched_keywords E query_text (create_searchable_text section)
             in case results_loop E self query_text similarities min_score rest of
                  Inl e \<Rightarrow> Inl e
                | Inr results \<Rightarrow>
                    Inr (\<lparr>m_section = section, m_score = score,
                          matched_keywords = matched_keywords,
                          confidence = score_to_confidence score\<rparr> # results))"

definition find_matches ::
  "env \<Rightarrow> matcher \<Rightarrow> CSICode \<Rightarrow> int \<Rightarrow> real \<Rightarrow> error + MatchResult list" where
  "find_matches E self csi top_n min_score =
     (case icc_vectors self of
        None \<Rightarrow> Inl (RuntimeError ''Matcher not initialized. Call initialize() first.'')
      | Some vectors \<Rightarrow>
          let query_text = create_csi_query csi;
              similarities = map (cosine E vectors query_text) vectors;
              top_indices = slice_to top_n (rev (argsort E similarities))
          in results_loop E self query_text similarities min_score top_indices)"

subsection \<open>The mapping synthesizer\<close>

definition round_half_even :: "real \<Rightarrow> int" where
  "round_half_even x =
     (let k = \<lfloor>x\<rfloor>; f = x - of_int k
      in if f > 1 / 2 \<or> (f = 1 / 2 \<and> odd k) then k + 1 else k)"

definition format_3f :: "real \<Rightarrow> string" where
  \<comment> \<open>the format \<^verbatim>\<open>{score:.3f}\<close>: three decimals, rounded half to even on the exact
      value of the score. A Python float whose decimal literal looks like a tie is in general
      not exactly one, and Python rounds its exact binary value.\<close>
  "format_3f x =
     (let k = nat (round_half_even (\<bar>x\<bar> * 1000));
          frac = k mod 1000
      in (if x < 0 then ''-'' else []) @ str_nat (k div 1000) @ ''.'' @
         [digit_char (frac div 100), digit_char (frac div 10 mod 10), digit_char (frac mod 10)])"

definition default_relevance_map :: "string \<rightharpoonup> string" where
  "default_relevance_map =
     [''high'' \<mapsto> ''primary'', ''medium'' \<mapsto> ''secondary'',
      ''low'' \<mapsto> ''reference'', ''very_low'' \<mapsto> ''reference'']"

definition new_mapping ::
  "CSICode \<Rightarrow> (string \<rightharpoonup> string) \<Rightarrow> nat \<Rightarrow> MatchResult \<Rightarrow> CSIICCMapping" where
  \<comment> \<open>the \<^verbatim>\<open>CSIICCMapping(...)\<close> the loop builds for a match; \<open>now\<close> is \<^verbatim>\<open>datetime.utcnow()\<close>\<close>
  "new_mapping csi relevance_map now match =
     (let section = m_section match;
          confidence = confidence match;
          score = m_score match;
          keywords = matched_keywords match;
          relevance = (case relevance_map confidence of None \<Rightarrow> ''reference'' | Some r \<Rightarrow> r)
      in \<lparr>map_id = None, csi_code_id = csi_id csi, icc_section_id = sec_id section,
           relevance = Some relevance,
           map_notes = Some (''Auto-generated via keyword matching (score: '' @ format_3f score @
                             '', keywords: '' @ join '', '' (take 3 keywords) @ '')''),
           created_at = Some now\<rparr>)"

fun create_loop ::
  "db \<Rightarrow> CSICode \<Rightarrow> (string \<rightharpoonup> string) \<Rightarrow> nat \<Rightarrow> MatchResult list \<Rightarrow> nat \<Rightarrow> db \<times> nat" where
  "create_loop d csi relevance_map now [] created = (d, created)"
| "create_loop d csi relevance_map now (match # rest) created =
     (case query_mapping_first d (csi_id csi) (sec_id (m_section match)) of
        Some existing \<Rightarrow> create_loop d csi relevance_map now rest created
      | None \<Rightarrow>
          create_loop (db_add d (new_mapping csi relevance_map now match))
            csi relevance_map now rest (created + 1))"

definition create_keyword_mappings ::
  "db \<Rightarrow> CSICode \<Rightarrow> MatchResult list \<Rightarrow> (string \<rightharpoonup> string) option \<Rightarrow> nat
     \<Rightarrow> (error + nat) \<times> db" where
  "create_keyword_mappings d csi matches relevance_map now =
     (let relevance_map = (case relevance_map of None \<Rightarrow> default_relevance_map | Some r \<Rightarrow> r);
          (d1, created) = create_loop d csi relevance_map now matches 0
      in if created > 0
         then (case db_commit d1 of
                 (Inl e, d2) \<Rightarrow> (Inl e, d2)
               | (Inr u, d2) \<Rightarrow> (Inr created, d2))
         else (Inr created, d1))"

subsection \<open>The search endpoint\<close>

record SearchRequest =
  req_csi_code :: string
  req_state :: "string option"
  req_year :: "int option"
  req_icc_document :: "string option"

definition keyword_stage :: "env \<Rightarrow> db \<Rightarrow> SearchRequest \<Rightarrow> CSICode \<Rightarrow> error + ICCSection list" where
  \<comment> \<open>the body of the \<^verbatim>\<open>try\<close> of \<^verbatim>\<open>search_codes\<close>, up to the list of suggested
      sections. The \<^verbatim>\<open>document\<close> relationship the loop fills in is a view of
      \<open>document_id\<close> and not a field of the model.\<close>
  "keyword_stage E d search_req csi_code_obj =
     (case initialize E KeywordMatcher d (req_icc_document search_req) of
        Inl e \<Rightarrow> Inl e
      | Inr m \<Rightarrow>
          (case find_matches E m csi_code_obj 10 0.1 of
             Inl e \<Rightarrow> Inl e
           | Inr matches \<Rightarrow> Inr (map m_section matches)))"

definition search_codes :: "env \<Rightarrow> db \<Rightarrow> SearchRequest \<Rightarrow> (error + SearchResult) \<times> db" where
  "search_codes E d search_req =
     (case search_csi_to_icc d (req_csi_code search_req) (req_state search_req)
             (req_year search_req) (req_icc_document search_req) of
        None \<Rightarrow> (Inl (HTTPException 404 ''CSI code not found''), d)
      | Some result \<Rightarrow>
          if length (r_icc_sections result) = 0
          then (case find (\<lambda>c. csi_code c = req_csi_code search_req) (t_csi_codes d) of
                  Some csi_code_obj \<Rightarrow>
                    (case keyword_stage E d search_req csi_code_obj of
                       Inr suggested_sections \<Rightarrow>
                         (Inr (result\<lparr>r_icc_sections := suggested_sections,
                                       total_results := length suggested_sections,
                                       source := Some ''keyword_matching''\<rparr>), d)
                     | Inl e \<Rightarrow> (Inr (result\<lparr>source := Some ''no_mappings''\<rparr>), d))
                | None \<Rightarrow> (Inr (result\<lparr>source := Some ''no_mappings''\<rparr>), d))
          else (Inr (result\<lparr>source := Some ''manual_mappings''\<rparr>), d))"

subsection \<open>Example data\<close>

definition stable_argsort :: "real list \<Rightarrow> nat list" where
  \<comment> \<open>an index sort that meets \<open>argsort_ok\<close>, for the example environment: insertion
      sort of the indices by their element, which leaves equal elements in index order.
      numpy's default sort is not stable and need not agree with it on equal elements.\<close>
  "stable_argsort xs = sort_key (\<lambda>i. xs ! i) [0..<length xs]"

definition env_const :: "real \<Rightarrow> env" where
  \<comment> \<open>every corpus text scores \<open>c\<close> against every query\<close>
  "env_const c = \<lparr>set_iter = sorted_list_of_set, argsort = stable_argsort,
                   fit_raises = (\<lambda>texts. False), cosine = (\<lambda>texts q t. c)\<rparr>"

definition csi_224000 :: CSICode where
  "csi_224000 = \<lparr>csi_id = 1, csi_code = ''22 40 00'', division = 22,
                  csi_title = ''Plumbing Fixtures'', csi_description = None\<rparr>"

definition doc_ipc :: ICCDocument where
  "doc_ipc = \<lparr>doc_id = 1, doc_code = ''IPC'', doc_year = 2021,
               doc_title = ''International Plumbing Code'', doc_state = None, base_url = ''u''\<rparr>"

definition sec_501 :: ICCSection where
  "sec_501 = \<lparr>sec_id = 1, document_id = 1, section_number = ''501.1'',
               sec_title = ''Water Heaters'', sec_chapter = Some 5, url = ''u'',
               sec_description = Some ''Requirements''\<rparr>"

definition sec_601 :: ICCSection where
  "sec_601 = \<lparr>sec_id = 2, document_id = 1, section_number = ''601.1'',
               sec_title = ''Water Supply'', sec_chapter = Some 6, url = ''u'',
               sec_description = None\<rparr>"

definition db0 :: db where
  \<comment> \<open>one CSI code, one document with two sections, no mapping\<close>
  "db0 = \<lparr>t_csi_codes = [csi_224000], t_icc_documents = [doc_ipc],
           t_icc_sections = [sec_501, sec_601], t_csi_icc_mappings = [], pending = [],
           autoflush = False, commits = 0\<rparr>"

definition mapping_1_1 :: CSIICCMapping where
  "mapping_1_1 = \<lparr>map_id = Some 1, csi_code_id = 1, icc_section_id = 1,
                   relevance = Some ''primary'', map_notes = None, created_at = None\<rparr>"

definition db1 :: db where
  \<comment> \<open>\<open>db0\<close> with a curated mapping of the code to section 501.1\<close>
  "db1 = db0\<lparr>t_csi_icc_mappings := [mapping_1_1]\<rparr>"

definition req0 :: SearchRequest where
  "req0 = \<lparr>req_csi_code = ''22 40 00'', req_state = None, req_year = None,
            req_icc_document = None\<rparr>"

definition req_ibc :: SearchRequest where
  \<comment> \<open>the same search, restricted to a document family with no section in \<open>db0\<close>\<close>
  "req_ibc = req0\<lparr>req_icc_document := Some ''IBC''\<rparr>"

definition matcher0 :: matcher where
  \<comment> \<open>the matcher \<^verbatim>\<open>initialize\<close> builds on \<open>db0\<close>\<close>
  "matcher0 = \<lparr>icc_sections = [sec_501, sec_601],
                icc_vectors = Some [create_searchable_text sec_501, create_searchable_text sec_601]\<rparr>"

definition match_501 :: MatchResult where
  "match_501 = \<lparr>m_section = sec_501, m_score = 0.42, matched_keywords = [''water''],
                 confidence = ''medium''\<rparr>"

definition match_601 :: MatchResult where
  "match_601 = \<lparr>m_section = sec_601, m_score = 0.2, matched_keywords = [''water'', ''supply''],
                 confidence = ''low''\<rparr>"

subsection \<open>Names for the intermediate values of find_matches\<close>

definition similarities_of :: "env \<Rightarrow> matcher \<Rightarrow> CSICode \<Rightarrow> real list" where
  \<comment> \<open>the array \<^verbatim>\<open>similarities\<close>: one score per corpus member, in corpus order\<close>
  "similarities_of E self csi =
     (case icc_vectors self of
        None \<Rightarrow> []
      | Some vectors \<Rightarrow> map (cosine E vectors (create_csi_query csi)) vectors)"

definition kept_indices :: "env \<Rightarrow> matcher \<Rightarrow> CSICode \<Rightarrow> int \<Rightarrow> real \<Rightarrow> nat list" where
  \<comment> \<open>the corpus indices of the results, in result order: \<^verbatim>\<open>top_indices\<close> without the
      indices the loop skips\<close>
  "kept_indices E self csi top_n min_score =
     filter (\<lambda>idx. \<not> similarities_of E self csi ! idx < min_score)
       (slice_to top_n (rev (argsort E (similarities_of E self csi))))"

definition match_of :: "env \<Rightarrow> matcher \<Rightarrow> CSICode \<Rightarrow> nat \<Rightarrow> MatchResult" where
  \<comment> \<open>the result \<^verbatim>\<open>find_matches\<close> builds for the corpus member at index \<open>idx\<close>\<close>
  "match_of E self csi idx =
     (let section = icc_sections self ! idx;
          score = similarities_of E self csi ! idx
      in \<lparr>m_section = section, m_score = score,
           matched_keywords =
             find_matched_keywords E (create_csi_query csi) (create_searchable_text section),
           confidence = score_to_confidence score\<rparr>)"

subsection \<open>Names for stating the properties of the synthesizer\<close>

definition pair_of :: "CSIICCMapping \<Rightarrow> int \<times> int" where
  \<comment> \<open>the (QueryCode, CodeSection) pair a mapping links\<close>
  "pair_of r = (csi_code_id r, icc_section_id r)"

definition match_pair :: "CSICode \<Rightarrow> MatchResult \<Rightarrow> int \<times> int" where
  \<comment> \<open>the pair a match would link\<close>
  "match_pair csi match = (csi_id csi, sec_id (m_section match))"

definition has_mapping :: "db \<Rightarrow> CSICode \<Rightarrow> MatchResult \<Rightarrow> bool" where
  \<comment> \<open>the loop's test \<^verbatim>\<open>if existing\<close>\<close>
  "has_mapping d csi match =
     (query_mapping_first d (csi_id csi) (sec_id (m_section match)) \<noteq> None)"

section \<open>Properties\<close>

subsection \<open>The confidence classifier\<close>

text \<open>
  Claim C5. The classifier is a total function of the score with half-open thresholds: a
  score of at least 0.5 is \<^verbatim>\<open>high\<close>, one in [0.3, 0.5) is \<^verbatim>\<open>medium\<close>, one in
  [0.15, 0.3) is \<^verbatim>\<open>low\<close>, and one below 0.15 is \<^verbatim>\<open>very_low\<close>; the five boundary
  values of the specification are classified as it says.
\<close>

theorem C5_score_to_confidence:
  "(s \<ge> 0.5 \<longrightarrow> score_to_confidence s = ''high'') \<and>
   (0.3 \<le> s \<and> s < 0.5 \<longrightarrow> score_to_confidence s = ''medium'') \<and>
   (0.15 \<le> s \<and> s < 0.3 \<longrightarrow> score_to_confidence s = ''low'') \<and>
   (s < 0.15 \<longrightarrow> score_to_confidence s = ''very_low'') \<and>
   score_to_confidence 0.5 = ''high'' \<and> score_to_confidence 0.49999 = ''medium'' \<and>
   score_to_confidence 0.3 = ''medium'' \<and> score_to_confidence 0.15 = ''low'' \<and>
   score_to_confidence 0.0 = ''very_low''"
  by (simp add: score_to_confidence_def)

theorem C5_score_to_confidence_witness:
  "score_to_confidence 0.7 = ''high'' \<and> score_to_confidence 0.42 = ''medium'' \<and>
   score_to_confidence 0.2 = ''low'' \<and> score_to_confidence 0.1 = ''very_low''"
  using C5_score_to_confidence [of "0.7"] C5_score_to_confidence [of "0.42"]
    C5_score_to_confidence [of "0.2"] C5_score_to_confidence [of "0.1"]
  by simp

subsection \<open>The corpus builder\<close>

text \<open>
  Claim C2, as the specification words it, puts the phrase \<^verbatim>\<open>chapter N\<close> before the
  description. The code appends the description first and the chapter last: on a section
  that has both, the two texts differ.
\<close>

theorem C2_order_counterexample:
  "create_searchable_text sec_501 = ''501.1 Water Heaters Water Heaters Requirements chapter 5'' \<and>
   spec_searchable_text sec_501 = ''501.1 Water Heaters Water Heaters chapter 5 Requirements'' \<and>
   create_searchable_text sec_501 \<noteq> spec_searchable_text sec_501"
  by (simp add: create_searchable_text_def spec_searchable_text_def sec_501_def str_int_def
      str_nat.simps digit_char_def)

text \<open>
  Claim C2, amended. The searchable text of a section is the space-joined concatenation,
  in this order, of the section number (once), the title (twice), the description, and
  the phrase \<^verbatim>\<open>chapter N\<close> last; a field that is \<^verbatim>\<open>None\<close>, empty or (for the chapter)
  zero is left out, with no placeholder.
\<close>

theorem C2_create_searchable_text:
  "create_searchable_text s =
     join '' ''
       ((if section_number s \<noteq> [] then [section_number s] else []) @
        (if sec_title s \<noteq> [] then [sec_title s, sec_title s] else []) @
        (case sec_description s of
           None \<Rightarrow> []
         | Some d \<Rightarrow> if d \<noteq> [] then [d] else []) @
        (case sec_chapter s of
           None \<Rightarrow> []
         | Some n \<Rightarrow> if n \<noteq> 0 then [''chapter '' @ str_int n] else []))"
  by (simp add: create_searchable_text_def split: option.splits)

subsection \<open>The match explainer\<close>

lemma sorted_by_len_desc_sorted:
  "sorted_wrt (\<lambda>a b. length b \<le> length a) (sorted_by_len_desc ws)"
proof -
  have "sorted (map (\<lambda>w. - int (length w)) (sort_key (\<lambda>w. - int (length w)) ws))"
    by (rule sorted_sort_key)
  then show ?thesis
    by (simp add: sorted_by_len_desc_def sorted_map sorted_wrt_iff_nth_less)
qed

lemma env_const_set_iter_ok: "set_iter_ok (env_const c)"
  by (simp add: set_iter_ok_def env_const_def)

lemma find_matched_keywords_example:
  "find_matched_keywords (env_const c)
     ''22 40 00 Plumbing Fixtures and the water heaters''
     ''501.1 Water Heaters the installation of fixtures for plumbing'' =
   [''fixtures'', ''plumbing'', ''heaters'', ''water'']"
proof -
  have "find_matched_keywords (env_const c) = find_matched_keywords (env_const 0)"
    by (simp add: find_matched_keywords_def env_const_def fun_eq_iff)
  moreover have "find_matched_keywords (env_const 0)
     ''22 40 00 Plumbing Fixtures and the water heaters''
     ''501.1 Water Heaters the installation of fixtures for plumbing'' =
   [''fixtures'', ''plumbing'', ''heaters'', ''water'']"
    by code_simp
  ultimately show ?thesis by simp
qed

text \<open>
  Claim C9. Whatever the order in which the runtime iterates over the set of common words,
  the explainer returns at most 5 terms; each of them is a word of both texts (lowercased
  and split at whitespace) and no stop word; and the terms are in non-increasing length.
\<close>

theorem C9_find_matched_keywords:
  assumes "set_iter_ok E"
  shows "length (find_matched_keywords E query text) \<le> 5 \<and>
     (\<forall>t \<in> set (find_matched_keywords E query text).
        t \<in> set (split (lower query)) \<and> t \<in> set (split (lower text)) \<and> t \<notin> stop_words) \<and>
     sorted_wrt (\<lambda>a b. length b \<le> length a) (find_matched_keywords E query text)"
proof -
  let ?M = "(set (split (lower query)) - stop_words) \<inter> (set (split (lower text)) - stop_words)"
  have fm: "find_matched_keywords E query text = take 5 (sorted_by_len_desc (set_iter E ?M))"
    by (simp add: find_matched_keywords_def Let_def)
  have "finite ?M" by simp
  with assms have it: "set (set_iter E ?M) = ?M"
    unfolding set_iter_ok_def by blast
  have sub: "set (take 5 (sorted_by_len_desc (set_iter E ?M))) \<subseteq> ?M"
    using set_take_subset [of 5 "sorted_by_len_desc (set_iter E ?M)"] it
    by (simp add: sorted_by_len_desc_def)
  have srt: "sorted_wrt (\<lambda>a b. length b \<le> length a) (take 5 (sorted_by_len_desc (set_iter E ?M)))"
    by (rule sorted_wrt_take [OF sorted_by_len_desc_sorted])
  show ?thesis
    unfolding fm using sub srt by auto
qed

theorem C9_find_matched_keywords_witness:
  "set_iter_ok (env_const 0) \<and>
   find_matched_keywords (env_const 0)
     ''22 40 00 Plumbing Fixtures and the water heaters''
     ''501.1 Water Heaters the installation of fixtures for plumbing'' =
   [''fixtures'', ''plumbing'', ''heaters'', ''water''] \<and>
   length (find_matched_keywords (env_const 0)
     ''22 40 00 Plumbing Fixtures and the water heaters''
     ''501.1 Water Heaters the installation of fixtures for plumbing'') \<le> 5 \<and>
   sorted_wrt (\<lambda>a b. length b \<le> length a) (find_matched_keywords (env_const 0)
     ''22 40 00 Plumbing Fixtures and the water heaters''
     ''501.1 Water Heaters the installation of fixtures for plumbing'')"
  using C9_find_matched_keywords [OF env_const_set_iter_ok, of 0
      "''22 40 00 Plumbing Fixtures and the water heaters''"
      "''501.1 Water Heaters the installation of fixtures for plumbing''"]
    env_const_set_iter_ok [of 0] find_matched_keywords_example [of 0]
  by blast

subsection \<open>The similarity ranker\<close>

lemma initialize_Inr:
  assumes "initialize E m0 d doc = Inr m"
  shows "icc_vectors m = Some (map create_searchable_text (icc_sections m)) \<and> icc_sections m \<noteq> []"
  using assms by (auto simp: initialize_def Let_def split: if_splits)

lemma length_similarities_of:
  "icc_vectors m = Some (map create_searchable_text (icc_sections m)) \<Longrightarrow>
   length (similarities_of E m c) = length (icc_sections m)"
  by (simp add: similarities_of_def)

lemma results_loop_in_range:
  assumes "\<forall>i \<in> set idxs. i < length sims \<and> i < length (icc_sections m)"
  shows "results_loop E m q sims mn idxs =
     Inr (map (\<lambda>idx. \<lparr>m_section = icc_sections m ! idx, m_score = sims ! idx,
                       matched_keywords =
                         find_matched_keywords E q (create_searchable_text (icc_sections m ! idx)),
                       confidence = score_to_confidence (sims ! idx)\<rparr>)
            (filter (\<lambda>idx. \<not> sims ! idx < mn) idxs))"
  using assms by (induction idxs) (auto simp: Let_def)

lemma argsort_ok_set: "argsort_ok E \<Longrightarrow> set (argsort E xs) = {0..<length xs}"
proof -
  assume "argsort_ok E"
  then have "mset (argsort E xs) = mset [0..<length xs]" by (simp add: argsort_ok_def)
  then have "set (argsort E xs) = set [0..<length xs]" by (rule mset_eq_setD)
  then show ?thesis by simp
qed

lemma set_slice_to: "set (slice_to k xs) \<subseteq> set xs"
  by (auto simp: slice_to_def dest: in_set_takeD)

lemma find_matches_eq:
  assumes ok: "\<forall>i \<in> set (argsort E (similarities_of E m c)). i < length (similarities_of E m c)"
    and init: "initialize E m0 d doc = Inr m"
  shows "find_matches E m c top_n mn = Inr (map (match_of E m c) (kept_indices E m c top_n mn))"
proof -
  from initialize_Inr [OF init]
  have v: "icc_vectors m = Some (map create_searchable_text (icc_sections m))" by simp
  let ?sims = "similarities_of E m c"
  have len: "length ?sims = length (icc_sections m)" by (rule length_similarities_of [OF v])
  have rng: "\<forall>i \<in> set (slice_to top_n (rev (argsort E ?sims))).
               i < length ?sims \<and> i < length (icc_sections m)"
    using ok set_slice_to [of top_n "rev (argsort E ?sims)"] len by auto
  have "find_matches E m c top_n mn =
      results_loop E m (create_csi_query c) ?sims mn (slice_to top_n (rev (argsort E ?sims)))"
    by (simp add: find_matches_def similarities_of_def v Let_def)
  also have "\<dots> = Inr (map (match_of E m c) (kept_indices E m c top_n mn))"
    unfolding results_loop_in_range [OF rng]
    by (simp add: kept_indices_def match_of_def Let_def)
  finally show ?thesis .
qed

lemma m_score_match_of: "m_score (match_of E m c i) = similarities_of E m c ! i"
  by (simp add: match_of_def Let_def)

lemma sorted_wrt_slice_to: "sorted_wrt R xs \<Longrightarrow> sorted_wrt R (slice_to k xs)"
  by (simp add: slice_to_def sorted_wrt_take)

lemma length_slice_to: "0 \<le> k \<Longrightarrow> int (length (slice_to k xs)) \<le> k"
  by (simp add: slice_to_def)

lemma sorted_wrt_kept_indices:
  assumes "sorted_wrt R (rev (argsort E (similarities_of E m c)))"
  shows "sorted_wrt R (kept_indices E m c top_n mn)"
  unfolding kept_indices_def
  by (intro sorted_wrt_filter sorted_wrt_slice_to assms)

lemma length_kept_indices:
  "0 \<le> top_n \<Longrightarrow> int (length (kept_indices E m c top_n mn)) \<le> top_n"
proof -
  assume k: "0 \<le> top_n"
  let ?xs = "slice_to top_n (rev (argsort E (similarities_of E m c)))"
  have "length (kept_indices E m c top_n mn) \<le> length ?xs"
    unfolding kept_indices_def by (rule length_filter_le)
  moreover have "int (length ?xs) \<le> top_n" by (rule length_slice_to [OF k])
  ultimately show ?thesis by linarith
qed

lemma kept_indices_score:
  "i \<in> set (kept_indices E m c top_n mn) \<Longrightarrow> mn \<le> similarities_of E m c ! i"
  by (simp add: kept_indices_def)

lemma kept_indices_all_below:
  assumes ok: "\<forall>i \<in> set (argsort E (similarities_of E m c)). i < length (similarities_of E m c)"
    and below: "\<forall>s \<in> set (similarities_of E m c). s < mn"
  shows "kept_indices E m c top_n mn = []"
proof -
  have "\<forall>i \<in> set (slice_to top_n (rev (argsort E (similarities_of E m c)))).
          similarities_of E m c ! i < mn"
    using ok below set_slice_to [of top_n "rev (argsort E (similarities_of E m c))"]
    by (auto simp: subset_iff)
  then show ?thesis by (simp add: kept_indices_def filter_empty_conv)
qed

lemma argsort_ok_desc:
  assumes "argsort_ok E"
  shows "sorted_wrt (\<lambda>a b. xs ! b \<le> xs ! a) (rev (argsort E xs))"
proof -
  from assms have "sorted (map ((!) xs) (argsort E xs))" by (simp add: argsort_ok_def)
  then have "sorted_wrt (\<lambda>a b. xs ! a \<le> xs ! b) (argsort E xs)"
    by (simp add: sorted_map)
  then show ?thesis by (simp add: sorted_wrt_rev)
qed
lemma env_const_argsort_ok: "argsort_ok (env_const c)"
  by (simp add: argsort_ok_def env_const_def stable_argsort_def)

lemma initialize_db0: "initialize (env_const c) KeywordMatcher db0 None = Inr matcher0"
  by (simp add: initialize_def KeywordMatcher_def db0_def matcher0_def query_icc_sections_def
      env_const_def sec_501_def sec_601_def doc_ipc_def Let_def)

lemma similarities_of_matcher0: "similarities_of (env_const c) matcher0 csi = [c, c]"
  by (simp add: similarities_of_def matcher0_def env_const_def)

lemma argsort_env_const_pair: "argsort (env_const c) [c, c] = [0, 1]"
  by (simp add: env_const_def stable_argsort_def upt_rec numeral_2_eq_2)

lemma kept_indices_matcher0:
  "kept_indices (env_const (1 / 2)) matcher0 csi 10 (1 / 10) = [1, 0]"
  "kept_indices (env_const (1 / 2)) matcher0 csi 1 (1 / 10) = [1]"
  "kept_indices (env_const (1 / 2)) matcher0 csi (- 1) (1 / 10) = [1]"
  "kept_indices (env_const 0) matcher0 csi 10 (1 / 10) = []"
  by (simp_all add: kept_indices_def similarities_of_matcher0 argsort_env_const_pair slice_to_def)

lemma find_matches_matcher0:
  "find_matches (env_const c) matcher0 csi top_n mn =
     Inr (map (match_of (env_const c) matcher0 csi) (kept_indices (env_const c) matcher0 csi top_n mn))"
proof (rule find_matches_eq [OF _ initialize_db0])
  show "\<forall>i \<in> set (argsort (env_const c) (similarities_of (env_const c) matcher0 csi)).
          i < length (similarities_of (env_const c) matcher0 csi)"
    using argsort_ok_set [OF env_const_argsort_ok] by simp
qed

lemma match_of_matcher0:
  "m_section (match_of E matcher0 csi 0) = sec_501"
  "m_section (match_of E matcher0 csi 1) = sec_601"
  "m_section (match_of E matcher0 csi (Suc 0)) = sec_601"
  "m_score (match_of (env_const c) matcher0 csi i) = [c, c] ! i"
  by (simp_all add: match_of_def matcher0_def Let_def similarities_of_def env_const_def)

text \<open>
  The slice \<^verbatim>\<open>[:top_n]\<close> of a negative \<open>top_n\<close> drops elements from the end instead of
  keeping none: with two candidates above the threshold and \<open>top_n = -1\<close> the matcher
  returns one result. As a number of results, \<open>top_n\<close> is not negative; the callers pass
  10 and 5.
\<close>

lemma find_matches_negative_top_n:
  "find_matches (env_const (1 / 2)) matcher0 csi_224000 (- 1) (1 / 10) =
     Inr [match_of (env_const (1 / 2)) matcher0 csi_224000 1]"
  by (simp add: find_matches_matcher0 kept_indices_matcher0)

lemma length_filter_take_desc:
  assumes "sorted_wrt (\<lambda>a b. f b \<le> f a) xs"
  shows "length (filter (\<lambda>x. (mn :: real) \<le> f x) (take k xs)) =
         min k (length (filter (\<lambda>x. mn \<le> f x) xs))"
  using assms
proof (induction xs arbitrary: k)
  case Nil
  then show ?case by simp
next
  case (Cons x xs)
  show ?case
  proof (cases k)
    case 0
    then show ?thesis by simp
  next
    case (Suc k')
    from Cons.prems have srt: "sorted_wrt (\<lambda>a b. f b \<le> f a) xs"
      and le: "\<forall>y \<in> set xs. f y \<le> f x" by simp_all
    show ?thesis
    proof (cases "mn \<le> f x")
      case True
      with Suc Cons.IH [OF srt, of k'] show ?thesis by simp
    next
      case False
      with le have "\<forall>y \<in> set xs. \<not> mn \<le> f y" by (meson order_trans)
      then have "filter (\<lambda>x. mn \<le> f x) xs = []"
        and "filter (\<lambda>x. mn \<le> f x) (take k' xs) = []"
        by (auto simp: filter_empty_conv dest: in_set_takeD)
      with False Suc show ?thesis by simp
    qed
  qed
qed

lemma length_filter_mset_eq:
  assumes "mset ys = mset zs"
  shows "length (filter P ys) = length (filter P zs)"
proof -
  from assms have "mset (filter P ys) = mset (filter P zs)" by simp
  then show ?thesis by (rule mset_eq_length)
qed

lemma argsort_ok_count:
  assumes "argsort_ok E"
  shows "length (filter (\<lambda>i. P (xs ! i)) (rev (argsort E xs))) = length (filter P xs)"
proof -
  from assms have "mset (argsort E xs) = mset [0..<length xs]" by (simp add: argsort_ok_def)
  then have "image_mset ((!) xs) (mset (argsort E xs)) =
      image_mset ((!) xs) (mset [0..<length xs])"
    by (rule arg_cong)
  then have "mset (map ((!) xs) (argsort E xs)) = mset (map ((!) xs) [0..<length xs])"
    by (simp only: mset_map)
  then have "mset (map ((!) xs) (argsort E xs)) = mset xs"
    by (simp only: map_nth)
  moreover have "mset (map ((!) xs) (rev (argsort E xs))) = mset (map ((!) xs) (argsort E xs))"
    by (simp only: rev_map [symmetric] mset_rev)
  ultimately have m: "mset (map ((!) xs) (rev (argsort E xs))) = mset xs" by simp
  have "length (filter (\<lambda>i. P (xs ! i)) (rev (argsort E xs))) =
        length (filter P (map ((!) xs) (rev (argsort E xs))))"
    by (simp add: filter_map comp_def)
  also have "\<dots> = length (filter P xs)"
    by (rule length_filter_mset_eq [OF m])
  finally show ?thesis .
qed

lemma kept_indices_alt:
  "kept_indices E m c top_n mn =
     filter (\<lambda>idx. mn \<le> similarities_of E m c ! idx)
       (slice_to top_n (rev (argsort E (similarities_of E m c))))"
  by (simp add: kept_indices_def not_less)

lemma length_kept_indices_exact:
  assumes ok: "argsort_ok E" and nn: "0 \<le> top_n"
  shows "length (kept_indices E m c top_n mn) =
         min (nat top_n) (length (filter (\<lambda>s. mn \<le> s) (similarities_of E m c)))"
proof -
  let ?sims = "similarities_of E m c"
  have "length (kept_indices E m c top_n mn) =
      length (filter (\<lambda>i. mn \<le> ?sims ! i) (take (nat top_n) (rev (argsort E ?sims))))"
    using nn by (simp add: kept_indices_alt slice_to_def)
  also have "\<dots> = min (nat top_n) (length (filter (\<lambda>i. mn \<le> ?sims ! i) (rev (argsort E ?sims))))"
    by (rule length_filter_take_desc [OF argsort_ok_desc [OF ok]])
  also have "length (filter (\<lambda>i. mn \<le> ?sims ! i) (rev (argsort E ?sims))) =
      length (filter (\<lambda>s. mn \<le> s) ?sims)"
    by (rule argsort_ok_count [OF ok])
  finally show ?thesis .
qed

lemma rev_argsort_order:
  "sorted_wrt (\<lambda>x y. \<exists>i j. j < i \<and> i < length a \<and> a ! i = x \<and> a ! j = y) (rev a)"
proof -
  have "\<And>i j. i < j \<Longrightarrow> j < length a \<Longrightarrow>
      \<exists>ia ja. ja < ia \<and> ia < length a \<and> a ! ia = a ! j \<and> a ! ja = a ! i"
  proof -
    fix i j assume "i < j" "j < length a"
    then show "\<exists>ia ja. ja < ia \<and> ia < length a \<and> a ! ia = a ! j \<and> a ! ja = a ! i"
      by (intro exI [of _ j] exI [of _ i]) simp
  qed
  then have "sorted_wrt (\<lambda>y x. \<exists>i j. j < i \<and> i < length a \<and> a ! i = x \<and> a ! j = y) a"
    unfolding sorted_wrt_iff_nth_less by simp
  then show ?thesis unfolding sorted_wrt_rev .
qed

lemma kept_indices_matcher0_equal:
  "kept_indices (env_const (1 / 2)) matcher0 csi 1 (1 / 2) = [1]"
  by (simp add: kept_indices_def similarities_of_matcher0 argsort_env_const_pair slice_to_def)

text \<open>
  Claim C4. For every initialized matcher, query code, \<open>top_n\<close> and \<open>min_score\<close>, and
  every \<^verbatim>\<open>argsort\<close> that sorts ascending, \<^verbatim>\<open>find_matches\<close> returns a list and no
  error. The list is made of exactly the candidates among the \<open>top_n\<close> of highest score
  whose score is at least \<open>min_score\<close>: a score equal to \<open>min_score\<close> is kept. For a
  number of results \<open>top_n\<close> (not negative) the list has at most \<open>top_n\<close> results,
  and exactly as many as the smaller of \<open>top_n\<close> and the number of corpus members
  whose score is at least \<open>min_score\<close>. Every result has a score of at least
  \<open>min_score\<close>, the scores are non-increasing, and when every candidate scores below
  \<open>min_score\<close> the list is empty.
\<close>

theorem C4_find_matches:
  assumes ok: "argsort_ok E" and init: "initialize E m0 d doc = Inr m"
  shows "\<exists>rs. find_matches E m c top_n mn = Inr rs \<and>
     rs = map (match_of E m c)
            (filter (\<lambda>idx. mn \<le> similarities_of E m c ! idx)
               (slice_to top_n (rev (argsort E (similarities_of E m c))))) \<and>
     (0 \<le> top_n \<longrightarrow> int (length rs) \<le> top_n \<and>
        length rs = min (nat top_n) (length (filter (\<lambda>s. mn \<le> s) (similarities_of E m c)))) \<and>
     (\<forall>r \<in> set rs. mn \<le> m_score r) \<and>
     sorted_wrt (\<lambda>a b. m_score b \<le> m_score a) rs \<and>
     ((\<forall>s \<in> set (similarities_of E m c). s < mn) \<longrightarrow> rs = [])"
proof -
  let ?sims = "similarities_of E m c"
  let ?ks = "kept_indices E m c top_n mn"
  let ?rs = "map (match_of E m c) ?ks"
  have rng: "\<forall>i \<in> set (argsort E ?sims). i < length ?sims"
    using argsort_ok_set [OF ok, of ?sims] by simp
  have eq: "find_matches E m c top_n mn = Inr ?rs"
    by (rule find_matches_eq [OF rng init])
  have shape: "?rs = map (match_of E m c)
      (filter (\<lambda>idx. mn \<le> ?sims ! idx) (slice_to top_n (rev (argsort E ?sims))))"
    by (simp only: kept_indices_alt)
  have len: "0 \<le> top_n \<longrightarrow> int (length ?rs) \<le> top_n \<and>
      length ?rs = min (nat top_n) (length (filter (\<lambda>s. mn \<le> s) ?sims))"
    using length_kept_indices [of top_n E m c mn] length_kept_indices_exact [OF ok, of top_n m c mn]
    by simp
  have sc: "\<forall>r \<in> set ?rs. mn \<le> m_score r"
    using kept_indices_score [of _ E m c top_n mn] by (auto simp: m_score_match_of)
  have "sorted_wrt (\<lambda>a b. ?sims ! b \<le> ?sims ! a) ?ks"
    by (rule sorted_wrt_kept_indices [OF argsort_ok_desc [OF ok]])
  then have srt: "sorted_wrt (\<lambda>a b. m_score b \<le> m_score a) ?rs"
    by (simp add: sorted_wrt_map m_score_match_of)
  have emp: "(\<forall>s \<in> set ?sims. s < mn) \<longrightarrow> ?rs = []"
    using kept_indices_all_below [OF rng, of mn top_n] by simp
  from eq shape len sc srt emp show ?thesis by (intro exI [of _ ?rs] conjI)
qed

theorem C4_find_matches_witness:
  "argsort_ok (env_const (1 / 2)) \<and>
   initialize (env_const (1 / 2)) KeywordMatcher db0 None = Inr matcher0 \<and>
   similarities_of (env_const (1 / 2)) matcher0 csi_224000 = [1 / 2, 1 / 2] \<and>
   find_matches (env_const (1 / 2)) matcher0 csi_224000 1 (1 / 2) =
     Inr [match_of (env_const (1 / 2)) matcher0 csi_224000 1] \<and>
   (\<exists>rs. find_matches (env_const (1 / 2)) matcher0 csi_224000 1 (1 / 2) = Inr rs \<and>
      int (length rs) \<le> 1 \<and> length rs = min (nat 1) (length [1 / 2 :: real, 1 / 2]) \<and>
      sorted_wrt (\<lambda>a b. m_score b \<le> m_score a) rs)"
proof -
  have nn: "(0::int) \<le> 1" by simp
  have f: "filter (\<lambda>s. 1 / 2 \<le> s) [1 / 2 :: real, 1 / 2] = [1 / 2, 1 / 2]" by simp
  from C4_find_matches [OF env_const_argsort_ok initialize_db0, of "1 / 2" csi_224000 1 "1 / 2"] nn
  have "\<exists>rs. find_matches (env_const (1 / 2)) matcher0 csi_224000 1 (1 / 2) = Inr rs \<and>
      int (length rs) \<le> 1 \<and> length rs = min (nat 1) (length [1 / 2 :: real, 1 / 2]) \<and>
      sorted_wrt (\<lambda>a b. m_score b \<le> m_score a) rs"
    unfolding similarities_of_matcher0 f by blast
  then show ?thesis
    by (simp add: env_const_argsort_ok initialize_db0 find_matches_matcher0
        kept_indices_matcher0_equal similarities_of_matcher0)
qed

text \<open>
  Claim C3 says that results with equal scores come in corpus order. The code takes the
  ascending \<^verbatim>\<open>argsort\<close> of the scores and reverses it, so results with equal scores come
  in the reverse of the order \<^verbatim>\<open>argsort\<close> gave them. With an \<^verbatim>\<open>argsort\<close> that leaves
  equal scores in index order, two sections of equal score come out second section first.
\<close>

theorem C3_tie_order_counterexample:
  "initialize (env_const (1 / 2)) KeywordMatcher db0 None = Inr matcher0 \<and>
   icc_sections matcher0 = [sec_501, sec_601] \<and>
   (\<exists>r1 r2. find_matches (env_const (1 / 2)) matcher0 csi_224000 10 (1 / 10) = Inr [r1, r2] \<and>
      m_score r1 = m_score r2 \<and> m_section r1 = sec_601 \<and> m_section r2 = sec_501)"
proof -
  have "icc_sections matcher0 = [sec_501, sec_601]" by (simp add: matcher0_def)
  then show ?thesis
    by (simp add: initialize_db0 find_matches_matcher0 kept_indices_matcher0 match_of_matcher0)
qed

text \<open>
  Claim C3, amended. The ranker defines no tie-break of its own: its results are the
  corpus members at \<open>kept_indices\<close>, the reversed \<^verbatim>\<open>argsort\<close> cut to \<open>top_n\<close> and
  filtered by \<open>min_score\<close>. So for every \<^verbatim>\<open>argsort\<close> that sorts ascending, any two
  corpus members that both appear in the results, and so any two of equal score, appear
  in the reverse of the order in which \<^verbatim>\<open>argsort\<close> placed them: the one that comes
  first in the results comes later in the output of \<^verbatim>\<open>argsort\<close>. The order of equal
  scores is therefore the one \<^verbatim>\<open>argsort\<close> leaves, reversed, and need not be the corpus
  order.
\<close>

theorem C3_tie_order:
  assumes ok: "argsort_ok E" and init: "initialize E m0 d doc = Inr m"
  shows "find_matches E m c top_n mn =
       Inr (map (match_of E m c) (kept_indices E m c top_n mn)) \<and>
     (\<forall>p q. p < q \<and> q < length (kept_indices E m c top_n mn) \<longrightarrow>
        (\<exists>i j. j < i \<and> i < length (argsort E (similarities_of E m c)) \<and>
           argsort E (similarities_of E m c) ! i = kept_indices E m c top_n mn ! p \<and>
           argsort E (similarities_of E m c) ! j = kept_indices E m c top_n mn ! q))"
proof -
  let ?sims = "similarities_of E m c"
  let ?a = "argsort E ?sims"
  let ?ks = "kept_indices E m c top_n mn"
  have rng: "\<forall>i \<in> set ?a. i < length ?sims"
    using argsort_ok_set [OF ok, of ?sims] by simp
  have eq: "find_matches E m c top_n mn = Inr (map (match_of E m c) ?ks)"
    by (rule find_matches_eq [OF rng init])
  have "sorted_wrt (\<lambda>x y. \<exists>i j. j < i \<and> i < length ?a \<and> ?a ! i = x \<and> ?a ! j = y) ?ks"
    by (rule sorted_wrt_kept_indices [OF rev_argsort_order])
  then have "\<forall>p q. p < q \<and> q < length ?ks \<longrightarrow>
        (\<exists>i j. j < i \<and> i < length ?a \<and> ?a ! i = ?ks ! p \<and> ?a ! j = ?ks ! q)"
    unfolding sorted_wrt_iff_nth_less by simp
  with eq show ?thesis by (rule conjI)
qed

theorem C3_tie_order_witness:
  "argsort_ok (env_const (1 / 2)) \<and>
   initialize (env_const (1 / 2)) KeywordMatcher db0 None = Inr matcher0 \<and>
   kept_indices (env_const (1 / 2)) matcher0 csi_224000 10 (1 / 10) = [1, 0] \<and>
   find_matches (env_const (1 / 2)) matcher0 csi_224000 10 (1 / 10) =
     Inr (map (match_of (env_const (1 / 2)) matcher0 csi_224000) [1, 0]) \<and>
   (\<exists>i j. j < i \<and> i < length (argsort (env_const (1 / 2)) [1 / 2, 1 / 2]) \<and>
      argsort (env_const (1 / 2)) [1 / 2, 1 / 2] ! i = 1 \<and>
      argsort (env_const (1 / 2)) [1 / 2, 1 / 2] ! j = 0)"
proof -
  note t = C3_tie_order [OF env_const_argsort_ok initialize_db0, of "1 / 2" csi_224000 10 "1 / 10",
      unfolded kept_indices_matcher0 similarities_of_matcher0]
  from t have fm: "find_matches (env_const (1 / 2)) matcher0 csi_224000 10 (1 / 10) =
     Inr (map (match_of (env_const (1 / 2)) matcher0 csi_224000) [1, 0])" by (rule conjunct1)
  from t have "\<forall>p q. p < q \<and> q < length [1, 0 :: nat] \<longrightarrow>
        (\<exists>i j. j < i \<and> i < length (argsort (env_const (1 / 2)) [1 / 2, 1 / 2]) \<and>
           argsort (env_const (1 / 2)) [1 / 2, 1 / 2] ! i = [1, 0] ! p \<and>
           argsort (env_const (1 / 2)) [1 / 2, 1 / 2] ! j = [1, 0] ! q)" by (rule conjunct2)
  then have "0 < (1::nat) \<and> 1 < length [1, 0 :: nat] \<longrightarrow>
        (\<exists>i j. j < i \<and> i < length (argsort (env_const (1 / 2)) [1 / 2, 1 / 2]) \<and>
           argsort (env_const (1 / 2)) [1 / 2, 1 / 2] ! i = [1, 0] ! 0 \<and>
           argsort (env_const (1 / 2)) [1 / 2, 1 / 2] ! j = [1, 0] ! 1)" by blast
  then have ex: "\<exists>i j. j < i \<and> i < length (argsort (env_const (1 / 2)) [1 / 2, 1 / 2]) \<and>
      argsort (env_const (1 / 2)) [1 / 2, 1 / 2] ! i = 1 \<and>
      argsort (env_const (1 / 2)) [1 / 2, 1 / 2] ! j = 0" by simp
  from fm ex show ?thesis
    by (simp add: env_const_argsort_ok initialize_db0 kept_indices_matcher0)
qed

subsection \<open>The mapping synthesizer\<close>

lemma has_mapping_iff:
  "has_mapping d c m \<longleftrightarrow> match_pair c m \<in> pair_of ` set (visible_mappings d)"
proof -
  have "has_mapping d c m \<longleftrightarrow>
      (\<exists>x \<in> set (visible_mappings d).
         csi_code_id x = csi_id c \<and> icc_section_id x = sec_id (m_section m))"
    by (auto simp: has_mapping_def query_mapping_first_def find_None_iff)
  also have "\<dots> \<longleftrightarrow> (\<exists>x \<in> set (visible_mappings d). pair_of x = match_pair c m)"
    by (simp add: pair_of_def match_pair_def)
  also have "\<dots> \<longleftrightarrow> match_pair c m \<in> pair_of ` set (visible_mappings d)"
    unfolding image_def by (simp add: eq_commute)
  finally show ?thesis .
qed

lemma pair_of_new_mapping: "pair_of (new_mapping c rm now m) = match_pair c m"
  by (simp add: pair_of_def new_mapping_def match_pair_def Let_def)

lemma visible_db_add:
  "set (visible_mappings d) \<subseteq> set (visible_mappings (db_add d r))"
  "set (visible_mappings (db_add d r)) \<subseteq> insert r (set (visible_mappings d))"
  by (auto simp: visible_mappings_def db_add_def)

lemma visible_db_add_autoflush:
  "autoflush (db_add d r) = autoflush d"
  "autoflush d \<Longrightarrow> r \<in> set (visible_mappings (db_add d r))"
  "\<not> autoflush d \<Longrightarrow> visible_mappings (db_add d r) = visible_mappings d"
  by (auto simp: visible_mappings_def db_add_def)

lemma has_mapping_db_add:
  "\<not> autoflush d \<Longrightarrow> has_mapping (db_add d r) c m = has_mapping d c m"
  by (simp add: has_mapping_def query_mapping_first_def visible_db_add_autoflush)

lemma create_loop_all_existing:
  "\<forall>m \<in> set ms. has_mapping d c m \<Longrightarrow> create_loop d c rm now ms k = (d, k)"
  by (induction ms) (auto simp: has_mapping_def)

lemma create_loop_result:
  "\<exists>new. create_loop d c rm now ms k = (d\<lparr>pending := pending d @ new\<rparr>, k + length new) \<and>
     (\<forall>m \<in> set ms. match_pair c m \<in> pair_of ` (set (visible_mappings d) \<union> set new)) \<and>
     (\<forall>r \<in> set new. pair_of r \<in> match_pair c ` set ms \<and>
                      pair_of r \<notin> pair_of ` set (visible_mappings d)) \<and>
     (autoflush d \<longrightarrow> distinct (map pair_of new)) \<and>
     (\<not> autoflush d \<longrightarrow>
        map pair_of new = map (match_pair c) (filter (\<lambda>m. \<not> has_mapping d c m) ms))"
proof (induction ms arbitrary: d k)
  case Nil
  show ?case by (rule exI [of _ "[]"]) simp
next
  case (Cons m ms)
  show ?case
  proof (cases "has_mapping d c m")
    case True
    from Cons.IH [of d k] obtain new where
      n: "create_loop d c rm now ms k = (d\<lparr>pending := pending d @ new\<rparr>, k + length new)"
        "\<forall>m \<in> set ms. match_pair c m \<in> pair_of ` (set (visible_mappings d) \<union> set new)"
        "\<forall>r \<in> set new. pair_of r \<in> match_pair c ` set ms \<and>
                      pair_of r \<notin> pair_of ` set (visible_mappings d)"
        "autoflush d \<longrightarrow> distinct (map pair_of new)"
        "\<not> autoflush d \<longrightarrow>
           map pair_of new = map (match_pair c) (filter (\<lambda>m. \<not> has_mapping d c m) ms)"
      by blast
    from True have ex: "match_pair c m \<in> pair_of ` set (visible_mappings d)"
      by (simp add: has_mapping_iff)
    from True have step: "create_loop d c rm now (m # ms) k = create_loop d c rm now ms k"
      by (auto simp: has_mapping_def)
    have a: "\<forall>m' \<in> set (m # ms). match_pair c m' \<in> pair_of ` (set (visible_mappings d) \<union> set new)"
      using n(2) ex by auto
    have b: "\<forall>r \<in> set new. pair_of r \<in> match_pair c ` set (m # ms) \<and>
                      pair_of r \<notin> pair_of ` set (visible_mappings d)"
      using n(3) by auto
    have e: "\<not> autoflush d \<longrightarrow>
        map pair_of new = map (match_pair c) (filter (\<lambda>m. \<not> has_mapping d c m) (m # ms))"
      using n(5) True by simp
    have eq: "create_loop d c rm now (m # ms) k = (d\<lparr>pending := pending d @ new\<rparr>, k + length new)"
      using step n(1) by simp
    show ?thesis
      by (rule exI [of _ new], intro conjI) (rule eq a b n(4) e)+
  next
    case False
    define r where "r = new_mapping c rm now m"
    define d' where "d' = db_add d r"
    from Cons.IH [of d' "k + 1"] obtain new where
      n1: "create_loop d' c rm now ms (k + 1) = (d'\<lparr>pending := pending d' @ new\<rparr>, k + 1 + length new)"
      and n2: "\<forall>m \<in> set ms. match_pair c m \<in> pair_of ` (set (visible_mappings d') \<union> set new)"
      and n3: "\<forall>r \<in> set new. pair_of r \<in> match_pair c ` set ms \<and>
                      pair_of r \<notin> pair_of ` set (visible_mappings d')"
      and n4: "autoflush d' \<longrightarrow> distinct (map pair_of new)"
      and n5: "\<not> autoflush d' \<longrightarrow>
           map pair_of new = map (match_pair c) (filter (\<lambda>m. \<not> has_mapping d' c m) ms)"
      by (elim exE conjE)
    have pr: "pair_of r = match_pair c m" by (simp add: r_def pair_of_new_mapping)
    have af: "autoflush d' = autoflush d" by (simp add: d'_def visible_db_add_autoflush(1))
    have sub1: "set (visible_mappings d) \<subseteq> set (visible_mappings d')"
      unfolding d'_def by (rule visible_db_add(1))
    have sub2: "set (visible_mappings d') \<subseteq> insert r (set (visible_mappings d))"
      unfolding d'_def by (rule visible_db_add(2))
    from False have nex: "match_pair c m \<notin> pair_of ` set (visible_mappings d)"
      by (simp add: has_mapping_iff)
    from False have step: "create_loop d c rm now (m # ms) k = create_loop d' c rm now ms (k + 1)"
      by (auto simp: has_mapping_def d'_def r_def)
    have st: "d'\<lparr>pending := pending d' @ new\<rparr> = d\<lparr>pending := pending d @ (r # new)\<rparr>"
      by (simp add: d'_def db_add_def)
    have a: "\<forall>m' \<in> set (m # ms). match_pair c m' \<in> pair_of ` (set (visible_mappings d) \<union> set (r # new))"
    proof
      fix m' assume "m' \<in> set (m # ms)"
      then consider "m' = m" | "m' \<in> set ms" by auto
      then show "match_pair c m' \<in> pair_of ` (set (visible_mappings d) \<union> set (r # new))"
      proof cases
        case 1
        have "pair_of r \<in> pair_of ` (set (visible_mappings d) \<union> set (r # new))"
          by (rule imageI) simp
        with 1 pr show ?thesis by simp
      next
        case 2
        with n2 have "match_pair c m' \<in> pair_of ` (set (visible_mappings d') \<union> set new)" by blast
        moreover have "set (visible_mappings d') \<union> set new \<subseteq> set (visible_mappings d) \<union> set (r # new)"
          using sub2 by auto
        ultimately show ?thesis by (rule rev_subsetD [OF _ image_mono])
      qed
    qed
    have b: "\<forall>x \<in> set (r # new). pair_of x \<in> match_pair c ` set (m # ms) \<and>
                      pair_of x \<notin> pair_of ` set (visible_mappings d)"
    proof
      fix x assume "x \<in> set (r # new)"
      then consider "x = r" | "x \<in> set new" by auto
      then show "pair_of x \<in> match_pair c ` set (m # ms) \<and>
                      pair_of x \<notin> pair_of ` set (visible_mappings d)"
      proof cases
        case 1
        then show ?thesis using nex pr by simp
      next
        case 2
        with n3 have x1: "pair_of x \<in> match_pair c ` set ms"
          and x2: "pair_of x \<notin> pair_of ` set (visible_mappings d')" by blast+
        from x2 image_mono [OF sub1, of pair_of]
        have "pair_of x \<notin> pair_of ` set (visible_mappings d)" by blast
        with x1 show ?thesis by simp
      qed
    qed
    have c: "autoflush d \<longrightarrow> distinct (map pair_of (r # new))"
    proof
      assume afd: "autoflush d"
      then have "r \<in> set (visible_mappings d')"
        unfolding d'_def by (rule visible_db_add_autoflush(2))
      then have inv: "pair_of r \<in> pair_of ` set (visible_mappings d')" by (rule imageI)
      have "pair_of r \<notin> pair_of ` set new"
      proof
        assume "pair_of r \<in> pair_of ` set new"
        then obtain x where x: "x \<in> set new" "pair_of r = pair_of x" by (rule imageE)
        from n3 x(1) have "pair_of x \<notin> pair_of ` set (visible_mappings d')" by simp
        with inv x(2) show False by simp
      qed
      moreover from afd n4 af have "distinct (map pair_of new)" by simp
      ultimately show "distinct (map pair_of (r # new))" by simp
    qed
    have e: "\<not> autoflush d \<longrightarrow>
        map pair_of (r # new) =
        map (match_pair c) (filter (\<lambda>m. \<not> has_mapping d c m) (m # ms))"
    proof
      assume naf: "\<not> autoflush d"
      have hm: "\<And>m'. has_mapping d' c m' = has_mapping d c m'"
        unfolding d'_def by (rule has_mapping_db_add [OF naf])
      from naf n5 af have "map pair_of new =
          map (match_pair c) (filter (\<lambda>m. \<not> has_mapping d' c m) ms)"
        by simp
      then have "map pair_of new = map (match_pair c) (filter (\<lambda>m. \<not> has_mapping d c m) ms)"
        by (simp only: hm)
      then show "map pair_of (r # new) =
          map (match_pair c) (filter (\<lambda>m. \<not> has_mapping d c m) (m # ms))"
        using False pr by simp
    qed
    have eq: "create_loop d c rm now (m # ms) k =
        (d\<lparr>pending := pending d @ (r # new)\<rparr>, k + length (r # new))"
      using step n1 st by simp
    show ?thesis
      by (rule exI [of _ "r # new"], intro conjI) (rule eq a b c e)+
  qed
qed



lemma create_keyword_mappings_cases:
  obtains new where
    "create_loop d c (case rm of None \<Rightarrow> default_relevance_map | Some r \<Rightarrow> r) now ms 0 =
       (d\<lparr>pending := pending d @ new\<rparr>, length new)"
    "\<forall>m \<in> set ms. match_pair c m \<in> pair_of ` (set (visible_mappings d) \<union> set new)"
    "\<forall>r \<in> set new. pair_of r \<in> match_pair c ` set ms \<and>
                     pair_of r \<notin> pair_of ` set (visible_mappings d)"
    "autoflush d \<longrightarrow> distinct (map pair_of new)"
    "\<not> autoflush d \<longrightarrow>
       map pair_of new = map (match_pair c) (filter (\<lambda>m. \<not> has_mapping d c m) ms)"
    "create_keyword_mappings d c ms rm now =
       (if new = [] then (Inr 0, d)
        else case db_commit (d\<lparr>pending := pending d @ new\<rparr>) of
               (Inl e, d2) \<Rightarrow> (Inl e, d2)
             | (Inr u, d2) \<Rightarrow> (Inr (length new), d2))"
proof -
  let ?rm = "case rm of None \<Rightarrow> default_relevance_map | Some r \<Rightarrow> r"
  from create_loop_result [of d c ?rm now ms 0] obtain new where
    n: "create_loop d c ?rm now ms 0 = (d\<lparr>pending := pending d @ new\<rparr>, 0 + length new)"
      "\<forall>m \<in> set ms. match_pair c m \<in> pair_of ` (set (visible_mappings d) \<union> set new)"
      "\<forall>r \<in> set new. pair_of r \<in> match_pair c ` set ms \<and>
                     pair_of r \<notin> pair_of ` set (visible_mappings d)"
      "autoflush d \<longrightarrow> distinct (map pair_of new)"
      "\<not> autoflush d \<longrightarrow>
         map pair_of new = map (match_pair c) (filter (\<lambda>m. \<not> has_mapping d c m) ms)"
    by blast
  have "create_keyword_mappings d c ms rm now =
       (if new = [] then (Inr 0, d)
        else case db_commit (d\<lparr>pending := pending d @ new\<rparr>) of
               (Inl e, d2) \<Rightarrow> (Inl e, d2)
             | (Inr u, d2) \<Rightarrow> (Inr (length new), d2))"
    using n(1) by (simp add: create_keyword_mappings_def Let_def)
  with n show ?thesis using that by simp
qed


lemma db_commit_Inl: "db_commit d = (Inl e, d2) \<Longrightarrow> d2 = d\<lparr>pending := []\<rparr>"
  by (auto simp: db_commit_def split: sum.splits)

text \<open>
  Claim C10. When every match already has a mapping (the test of the loop finds one for
  each), and so also when the list of matches is empty, the synthesizer returns 0 and the
  session, with its committed rows, its pending rows and its count of commits, is the one it
  was given: nothing was added and nothing committed. And whenever the synthesizer returns
  0, the session is unchanged.
\<close>

theorem C10_no_new_mappings:
  "((\<forall>m \<in> set ms. has_mapping d c m) \<longrightarrow>
      create_keyword_mappings d c ms rm now = (Inr 0, d)) \<and>
   (fst (create_keyword_mappings d c ms rm now) = Inr 0 \<longrightarrow>
      snd (create_keyword_mappings d c ms rm now) = d)"
proof (intro conjI impI)
  assume "\<forall>m \<in> set ms. has_mapping d c m"
  then show "create_keyword_mappings d c ms rm now = (Inr 0, d)"
    by (simp add: create_keyword_mappings_def create_loop_all_existing)
next
  assume z: "fst (create_keyword_mappings d c ms rm now) = Inr 0"
  obtain new where
    r: "create_keyword_mappings d c ms rm now =
       (if new = [] then (Inr 0, d)
        else case db_commit (d\<lparr>pending := pending d @ new\<rparr>) of
               (Inl e, d2) \<Rightarrow> (Inl e, d2)
             | (Inr u, d2) \<Rightarrow> (Inr (length new), d2))"
    by (rule create_keyword_mappings_cases)
  show "snd (create_keyword_mappings d c ms rm now) = d"
  proof (cases "new = []")
    case True
    with r show ?thesis by simp
  next
    case False
    with r z show ?thesis
      by (cases "db_commit (d\<lparr>pending := pending d @ new\<rparr>)") (auto split: sum.splits)
  qed
qed



lemma has_mapping_examples:
  "has_mapping db1 csi_224000 match_501"
  "\<not> has_mapping db0 csi_224000 match_501"
  "\<not> has_mapping db0 csi_224000 match_601"
  by (simp_all add: has_mapping_def query_mapping_first_def visible_mappings_def db1_def db0_def
      mapping_1_1_def csi_224000_def match_501_def match_601_def sec_501_def sec_601_def)


theorem C10_no_new_mappings_witness:
  "has_mapping db1 csi_224000 match_501 \<and>
   create_keyword_mappings db1 csi_224000 [match_501] None 7 = (Inr 0, db1) \<and>
   create_keyword_mappings db0 csi_224000 [] None 7 = (Inr 0, db0)"
  using C10_no_new_mappings [of "[match_501]" db1 csi_224000 None 7]
    C10_no_new_mappings [of "[]" db0 csi_224000 None 7] has_mapping_examples(1)
  by simp







lemma create_loop_duplicate_autoflush:
  "create_loop (db0\<lparr>autoflush := True\<rparr>) csi_224000 rm now [match_501, match_501] 0 =
     (db0\<lparr>autoflush := True, pending := [new_mapping csi_224000 rm now match_501]\<rparr>, 1)"
  by (simp add: query_mapping_first_def visible_mappings_def db_add_def db0_def new_mapping_def
      Let_def)

lemma create_keyword_mappings_duplicate_autoflush:
  "fst (create_keyword_mappings (db0\<lparr>autoflush := True\<rparr>) csi_224000
          [match_501, match_501] None 7) = Inr 1"
  unfolding create_keyword_mappings_def create_loop_duplicate_autoflush
  by (simp add: db_commit_def db0_def)

subsection \<open>The search endpoint\<close>

lemma search_csi_to_icc_Some:
  "get_csi_code d (req_csi_code q) = Some csi \<Longrightarrow>
   search_csi_to_icc d (req_csi_code q) (req_state q) (req_year q) (req_icc_document q) =
     Some \<lparr>r_csi_code = csi,
           r_icc_sections = get_icc_sections_for_csi_code d (req_csi_code q) (req_state q)
                              (req_year q) (req_icc_document q),
           total_results = length (get_icc_sections_for_csi_code d (req_csi_code q) (req_state q)
                              (req_year q) (req_icc_document q)),
           source = None\<rparr>"
  by (simp add: search_csi_to_icc_def Let_def)

lemma search_codes_existing:
  assumes csi: "get_csi_code d (req_csi_code q) = Some csi"
  shows "search_codes E d q =
     (let curated = get_icc_sections_for_csi_code d (req_csi_code q) (req_state q)
                      (req_year q) (req_icc_document q)
      in if curated = []
         then (case keyword_stage E d q csi of
                 Inr suggested \<Rightarrow>
                   (Inr \<lparr>r_csi_code = csi, r_icc_sections = suggested,
                          total_results = length suggested,
                          source = Some ''keyword_matching''\<rparr>, d)
               | Inl e \<Rightarrow>
                   (Inr \<lparr>r_csi_code = csi, r_icc_sections = [], total_results = 0,
                          source = Some ''no_mappings''\<rparr>, d))
         else (Inr \<lparr>r_csi_code = csi, r_icc_sections = curated,
                      total_results = length curated,
                      source = Some ''manual_mappings''\<rparr>, d))"
proof -
  from csi have f: "find (\<lambda>c. csi_code c = req_csi_code q) (t_csi_codes d) = Some csi"
    by (simp add: get_csi_code_def)
  show ?thesis
    unfolding search_codes_def search_csi_to_icc_Some [OF csi]
    by (simp add: f Let_def split: sum.splits)
qed

lemma keyword_stage_empty_corpus:
  "query_icc_sections d (req_icc_document q) = [] \<Longrightarrow>
   keyword_stage E d q csi = Inl (ValueError ''No ICC sections found in database'')"
  by (simp add: keyword_stage_def initialize_def KeywordMatcher_def Let_def)

lemma keyword_stage_fit_raises:
  "query_icc_sections d (req_icc_document q) \<noteq> [] \<Longrightarrow>
   fit_raises E (map create_searchable_text (query_icc_sections d (req_icc_document q))) \<Longrightarrow>
   keyword_stage E d q csi = Inl (ValueError ''empty vocabulary; perhaps the documents only contain stop words'')"
  by (simp add: keyword_stage_def initialize_def KeywordMatcher_def Let_def)

text \<open>
  Claim C8. A search returns the session it was given: the committed mappings, the pending
  mappings and the number of commits are what they were before the call, whether the
  search fails, answers from curated mappings, or suggests sections from the keyword
  matcher. The search calls neither \<^verbatim>\<open>db.add\<close> nor \<^verbatim>\<open>db.commit\<close>; of the functions
  modelled, only \<open>create_keyword_mappings\<close> does.
\<close>

theorem C8_search_writes_nothing:
  "snd (search_codes E d q) = d \<and>
   t_csi_icc_mappings (snd (search_codes E d q)) = t_csi_icc_mappings d \<and>
   pending (snd (search_codes E d q)) = pending d \<and>
   commits (snd (search_codes E d q)) = commits d"
proof -
  have "snd (search_codes E d q) = d"
    by (simp add: search_codes_def split: option.splits sum.splits)
  then show ?thesis by simp
qed

text \<open>
  Claim C1, amended. For a search on an existing query code the endpoint returns a result,
  and its tag is \<^verbatim>\<open>manual_mappings\<close> (curated) exactly when the curated lookup is not
  empty; \<^verbatim>\<open>keyword_matching\<close> (fallback matched) exactly when the curated lookup is empty
  and the keyword stage completes without an exception, whether or not it yields a
  section; and \<^verbatim>\<open>no_mappings\<close> (no match) exactly when the curated lookup is empty and
  the keyword stage raises.
\<close>

theorem C1_source_tag:
  assumes csi: "get_csi_code d (req_csi_code q) = Some csi"
  shows "\<exists>r. search_codes E d q = (Inr r, d) \<and>
     (source r = Some ''manual_mappings'' \<longleftrightarrow>
        get_icc_sections_for_csi_code d (req_csi_code q) (req_state q) (req_year q)
          (req_icc_document q) \<noteq> []) \<and>
     (source r = Some ''keyword_matching'' \<longleftrightarrow>
        get_icc_sections_for_csi_code d (req_csi_code q) (req_state q) (req_year q)
          (req_icc_document q) = [] \<and>
        (\<exists>suggested. keyword_stage E d q csi = Inr suggested)) \<and>
     (source r = Some ''no_mappings'' \<longleftrightarrow>
        get_icc_sections_for_csi_code d (req_csi_code q) (req_state q) (req_year q)
          (req_icc_document q) = [] \<and>
        (\<exists>e. keyword_stage E d q csi = Inl e))"
  unfolding search_codes_existing [OF csi]
  by (cases "keyword_stage E d q csi") (simp_all add: Let_def)

text \<open>
  Claim C7. For a search on an existing query code with no curated section, when the
  keyword stage raises (any exception; in particular when the corpus of the requested
  document family is empty, or when fitting the vectorizer raises), the endpoint returns
  a result with the tag \<^verbatim>\<open>no_mappings\<close>, no section and a total of 0, and no error.
\<close>

theorem C7_fallback_failure:
  assumes csi: "get_csi_code d (req_csi_code q) = Some csi"
    and cur: "get_icc_sections_for_csi_code d (req_csi_code q) (req_state q) (req_year q)
                (req_icc_document q) = []"
    and fail: "keyword_stage E d q csi = Inl e \<or>
               query_icc_sections d (req_icc_document q) = [] \<or>
               fit_raises E (map create_searchable_text (query_icc_sections d (req_icc_document q)))"
  shows "search_codes E d q =
     (Inr \<lparr>r_csi_code = csi, r_icc_sections = [], total_results = 0,
            source = Some ''no_mappings''\<rparr>, d)"
proof -
  from fail have "\<exists>e. keyword_stage E d q csi = Inl e"
    using keyword_stage_empty_corpus [of d q E csi] keyword_stage_fit_raises [of d q E csi]
    by blast
  then show ?thesis
    unfolding search_codes_existing [OF csi] by (auto simp: cur)
qed

lemma get_csi_code_db0: "get_csi_code db0 (req_csi_code req0) = Some csi_224000"
  "get_csi_code db1 (req_csi_code req0) = Some csi_224000"
  "get_csi_code db0 (req_csi_code req_ibc) = Some csi_224000"
  by (simp_all add: get_csi_code_def db0_def db1_def req0_def req_ibc_def csi_224000_def)

lemma curated_db0:
  "get_icc_sections_for_csi_code db0 (req_csi_code q) (req_state q) (req_year q)
     (req_icc_document q) = []"
  by (simp add: get_icc_sections_for_csi_code_def db0_def visible_mappings_def)

lemma curated_db1:
  "get_icc_sections_for_csi_code db1 (req_csi_code req0) (req_state req0) (req_year req0)
     (req_icc_document req0) = [sec_501]"
  by (simp add: get_icc_sections_for_csi_code_def db0_def db1_def visible_mappings_def req0_def
      mapping_1_1_def csi_224000_def sec_501_def sec_601_def doc_ipc_def)

lemma corpus_ibc_db0: "query_icc_sections db0 (req_icc_document req_ibc) = []"
  by (simp add: query_icc_sections_def db0_def req_ibc_def doc_ipc_def sec_501_def sec_601_def)

lemma keyword_stage_db0:
  "keyword_stage (env_const c) db0 req0 csi =
     Inr (map m_section (map (match_of (env_const c) matcher0 csi)
            (kept_indices (env_const c) matcher0 csi 10 (1 / 10))))"
proof -
  have i: "initialize (env_const c) KeywordMatcher db0 (req_icc_document req0) = Inr matcher0"
    using initialize_db0 [of c] by (simp add: req0_def)
  have "(0.1 :: real) = 1 / 10" by simp
  then show ?thesis
    by (simp add: keyword_stage_def i find_matches_matcher0)
qed

text \<open>
  Claim C1 says the tag is \<^verbatim>\<open>no_match\<close> when the curated lookup is empty and the
  matcher runs without error but no candidate reaches \<open>min_score\<close>. The endpoint sets the
  tag \<^verbatim>\<open>keyword_matching\<close> after the matcher returns, without looking at the number of
  matches: with every score 0 the result has no section and the tag \<^verbatim>\<open>keyword_matching\<close>.
\<close>

theorem C1_empty_fallback_counterexample:
  "get_csi_code db0 (req_csi_code req0) = Some csi_224000 \<and>
   get_icc_sections_for_csi_code db0 (req_csi_code req0) (req_state req0) (req_year req0)
     (req_icc_document req0) = [] \<and>
   keyword_stage (env_const 0) db0 req0 csi_224000 = Inr [] \<and>
   search_codes (env_const 0) db0 req0 =
     (Inr \<lparr>r_csi_code = csi_224000, r_icc_sections = [], total_results = 0,
            source = Some ''keyword_matching''\<rparr>, db0)"
proof -
  have k: "keyword_stage (env_const 0) db0 req0 csi_224000 = Inr []"
    by (simp add: keyword_stage_db0 kept_indices_matcher0)
  show ?thesis
    unfolding search_codes_existing [OF get_csi_code_db0(1)]
    by (simp add: get_csi_code_db0 curated_db0 k)
qed

theorem C1_source_tag_witness:
  "get_csi_code db1 (req_csi_code req0) = Some csi_224000 \<and>
   (\<exists>r. search_codes (env_const 0) db1 req0 = (Inr r, db1) \<and>
      source r = Some ''manual_mappings'' \<and> r_icc_sections r = [sec_501])"
proof -
  from C1_source_tag [OF get_csi_code_db0(2), of "env_const 0"] obtain r where
    r: "search_codes (env_const 0) db1 req0 = (Inr r, db1)"
      "source r = Some ''manual_mappings''"
    using curated_db1 by auto
  have "search_codes (env_const 0) db1 req0 =
      (Inr \<lparr>r_csi_code = csi_224000, r_icc_sections = [sec_501], total_results = 1,
             source = Some ''manual_mappings''\<rparr>, db1)"
    unfolding search_codes_existing [OF get_csi_code_db0(2)] by (simp add: curated_db1)
  with r have "r_icc_sections r = [sec_501]" by auto
  with r get_csi_code_db0(2) show ?thesis by blast
qed

theorem C7_fallback_failure_witness:
  "get_csi_code db0 (req_csi_code req_ibc) = Some csi_224000 \<and>
   query_icc_sections db0 (req_icc_document req_ibc) = [] \<and>
   search_codes (env_const (1 / 2)) db0 req_ibc =
     (Inr \<lparr>r_csi_code = csi_224000, r_icc_sections = [], total_results = 0,
            source = Some ''no_mappings''\<rparr>, db0)"
  using C7_fallback_failure [OF get_csi_code_db0(3) curated_db0, of "env_const (1 / 2)"]
    corpus_ibc_db0 get_csi_code_db0(3)
  by blast

end
